theory Spec2Isabelle
  imports Complex_Main "HOL-Library.Monad_Syntax"
begin

section \<open>Cartridge loading calculator: numeric model\<close>

text \<open>
  The program \<^verbatim>\<open>cartridge_loading.py\<close> computes with Python floats and numpy arrays of
  \<^verbatim>\<open>float64\<close> and \<^verbatim>\<open>complex128\<close>. The embedding reads a finite float as a \<^typ>\<open>real\<close>
  and a finite complex as a \<^typ>\<open>complex\<close>, and every operation as the exact operation:
  rounding, overflow to an infinity and underflow to zero are not modelled. It describes
  which expression the program evaluates; a property that depends on the last bits of a
  result, or on a result leaving the range of \<^verbatim>\<open>float64\<close>, is outside it.

  numpy does not raise on a zero divisor, on the logarithm of a number that is not positive
  or on the square root of a negative number, but produces NaN or an infinity: a value of
  the program is therefore an \<open>option\<close>, where \<open>None\<close> stands for "an IEEE special value
  (NaN, +Inf, -Inf) took part in computing this value" and is not tracked any further. A
  Python exception is a value of \<open>py_error\<close>.
\<close>

datatype py_error = ValueError | ZeroDivisionError

definition np_log10 :: "real \<Rightarrow> real option" where
  \<comment> \<open>\<^verbatim>\<open>np.log10(x)\<close>: \<^verbatim>\<open>-inf\<close> at 0, NaN below.\<close>
  "np_log10 x = (if 0 < x then Some (log 10 x) else None)"

definition np_sqrt :: "real \<Rightarrow> real option" where
  \<comment> \<open>\<^verbatim>\<open>np.sqrt(x)\<close>: NaN below 0.\<close>
  "np_sqrt x = (if 0 \<le> x then Some (sqrt x) else None)"

definition np_div :: "real \<Rightarrow> real \<Rightarrow> real option" where
  \<comment> \<open>Division of numpy floats: a zero divisor gives an infinity or NaN.\<close>
  "np_div a b = (if b = 0 then None else Some (a / b))"

definition np_cdiv :: "complex \<Rightarrow> complex \<Rightarrow> complex option" where
  \<comment> \<open>Division of numpy complex numbers, likewise. An overflow of the quotient at a divisor
      that is tiny but not zero is outside the embedding.\<close>
  "np_cdiv a b = (if b = 0 then None else Some (a / b))"

definition arctan2 :: "real \<Rightarrow> real \<Rightarrow> real" where
  \<comment> \<open>\<^verbatim>\<open>np.arctan2(y, x)\<close>, the quadrant-aware arc tangent of \<open>y / x\<close>.\<close>
  "arctan2 y x =
     (if 0 < x then arctan (y / x)
      else if x < 0 then (if 0 \<le> y then arctan (y / x) + pi else arctan (y / x) - pi)
      else if 0 < y then pi / 2
      else if y < 0 then - (pi / 2)
      else 0)"

definition np_angle :: "complex \<Rightarrow> real" where
  \<comment> \<open>\<^verbatim>\<open>np.angle(z)\<close> is \<^verbatim>\<open>arctan2(z.imag, z.real)\<close>, in radians.\<close>
  "np_angle z = arctan2 (Im z) (Re z)"

definition linspace :: "real \<Rightarrow> real \<Rightarrow> nat \<Rightarrow> real list" where
  \<comment> \<open>\<^verbatim>\<open>np.linspace(start, stop, num)\<close> with the endpoint included: the multiples of the
      step shifted by \<open>start\<close>, and the last sample overwritten with \<open>stop\<close>.\<close>
  "linspace start stop num =
     (let divisor = int num - 1;
          delta = stop - start;
          y = map real [0..<num];
          y = (if 0 < divisor then map (\<lambda>k. k * (delta / real_of_int divisor) + start) y
               else map (\<lambda>k. k * delta + start) y)
      in if 1 < num then y[num - 1 := stop] else y)"

definition np_logspace :: "real option \<Rightarrow> real option \<Rightarrow> nat \<Rightarrow> real option list" where
  \<comment> \<open>\<^verbatim>\<open>np.logspace(start, stop, num)\<close> is \<^verbatim>\<open>10 ** linspace(start, stop, num)\<close>. When a
      bound is a special value, every sample of \<^verbatim>\<open>linspace\<close> is computed from it, except
      the last one, which is overwritten with \<open>stop\<close>.\<close>
  "np_logspace start stop num =
     (let y = (case (start, stop) of
                 (Some a, Some b) \<Rightarrow> map Some (linspace a b num)
               | _ \<Rightarrow> (let y = replicate num None
                       in if 1 < num then y[num - 1 := stop] else y))
      in map (map_option (\<lambda>v. 10 powr v)) y)"

fun argmax_from :: "real list \<Rightarrow> nat \<Rightarrow> nat \<Rightarrow> real \<Rightarrow> nat" where
  "argmax_from [] i best bv = best"
| "argmax_from (x # xs) i best bv =
     (if bv < x then argmax_from xs (Suc i) i x else argmax_from xs (Suc i) best bv)"

definition np_argmax :: "real list \<Rightarrow> py_error + nat" where
  \<comment> \<open>\<^verbatim>\<open>np.argmax(a)\<close>: the first index of the maximum; an empty array raises.\<close>
  "np_argmax a = (case a of [] \<Rightarrow> Inl ValueError | x # xs \<Rightarrow> Inr (argmax_from xs 1 0 x))"

section \<open>The response calculator\<close>

text \<open>
  The impedances of \<^verbatim>\<open>cartridge_frequency_response\<close> are numpy arrays computed elementwise;
  the functions below give one element, at the angular frequency \<open>omega\<close>.
\<close>

definition Z_cart :: "real \<Rightarrow> real \<Rightarrow> real \<Rightarrow> complex" where
  \<comment> \<open>\<^verbatim>\<open>Z_cart = R_cart + 1j * omega * L\<close>\<close>
  "Z_cart R_cart L omega = of_real R_cart + \<i> * of_real omega * of_real L"

definition Z_cap :: "real \<Rightarrow> real \<Rightarrow> complex option" where
  \<comment> \<open>\<^verbatim>\<open>Z_cap = 1.0 / (1j * omega * C)\<close>\<close>
  "Z_cap C omega = np_cdiv 1 (\<i> * of_real omega * of_real C)"

definition Z_load :: "real \<Rightarrow> complex \<Rightarrow> complex option" where
  \<comment> \<open>\<^verbatim>\<open>Z_load = (R_load * Z_cap) / (R_load + Z_cap)\<close>\<close>
  "Z_load R_load zcap = np_cdiv (of_real R_load * zcap) (of_real R_load + zcap)"

definition H_at :: "real \<Rightarrow> real \<Rightarrow> real \<Rightarrow> real \<Rightarrow> real \<Rightarrow> complex option" where
  \<comment> \<open>\<^verbatim>\<open>H = Z_load / (Z_cart + Z_load)\<close>\<close>
  "H_at R_cart L R_load C omega =
     do { zcap \<leftarrow> Z_cap C omega;
          zload \<leftarrow> Z_load R_load zcap;
          np_cdiv zload (Z_cart R_cart L omega + zload) }"

definition magnitude_dB_of :: "complex option \<Rightarrow> real option" where
  \<comment> \<open>\<^verbatim>\<open>magnitude_dB = 20 * np.log10(np.abs(H))\<close>\<close>
  "magnitude_dB_of H = do { h \<leftarrow> H; l \<leftarrow> np_log10 (cmod h); Some (20 * l) }"

definition phase_deg_of :: "complex option \<Rightarrow> real option" where
  \<comment> \<open>\<^verbatim>\<open>phase_deg = np.angle(H) * 180 / np.pi\<close>\<close>
  "phase_deg_of H = do { h \<leftarrow> H; Some (np_angle h * 180 / pi) }"

text \<open>
  The function returns the tuple \<^verbatim>\<open>(frequencies, magnitude_dB, phase_deg, f_res_ideal, Q)\<close>;
  the record names its components after the returned variables.
\<close>

record response =
  frequencies :: "real option list"
  magnitude_dB :: "real option list"
  phase_deg :: "real option list"
  f_res_ideal :: "real option"
  Q_factor :: "real option"

definition cartridge_frequency_response ::
  "real \<Rightarrow> real \<Rightarrow> real \<Rightarrow> real \<Rightarrow> real \<times> real \<Rightarrow> int \<Rightarrow> py_error + response" where
  \<comment> \<open>\<^verbatim>\<open>np.logspace\<close> raises \<^verbatim>\<open>ValueError\<close> on a negative number of samples; \<^verbatim>\<open>L / C\<close>
      divides Python floats and raises \<^verbatim>\<open>ZeroDivisionError\<close> when \<open>C\<close> is zero.\<close>
  "cartridge_frequency_response L_cart_mH R_cart_ohms R_load_kohms C_total_pF freq_range num_points =
     (let L = L_cart_mH * (1 / 10 ^ 3);
          R_cart = R_cart_ohms;
          R_load = R_load_kohms * 10 ^ 3;
          C = C_total_pF * (1 / 10 ^ 12)
      in if num_points < 0 then Inl ValueError
         else
           let freqs = np_logspace (np_log10 (fst freq_range)) (np_log10 (snd freq_range))
                         (nat num_points);
               omega = map (map_option (\<lambda>f. 2 * pi * f)) freqs;
               H = map (\<lambda>w. w \<bind> H_at R_cart L R_load C) omega;
               mags = map magnitude_dB_of H;
               phases = map phase_deg_of H;
               f_res = do { s \<leftarrow> np_sqrt (L * C); np_div 1 (2 * pi * s) }
           in if C = 0 then Inl ZeroDivisionError
              else
                let Z0 = np_sqrt (L / C);
                    R_total = R_cart + R_load;
                    Q = Z0 \<bind> (\<lambda>z. np_div z R_total)
                in Inr \<lparr>frequencies = freqs, magnitude_dB = mags, phase_deg = phases,
                         f_res_ideal = f_res, Q_factor = Q\<rparr>)"

text \<open>
  The frequencies that the calculator sweeps when both bounds are positive:
  \<^verbatim>\<open>np.logspace(np.log10(lo), np.log10(hi), n)\<close>, in exact arithmetic. The exact power
  and the exact logarithm are inverse to each other; the \<^verbatim>\<open>float64\<close> ones are so only up
  to rounding, so that the stored samples agree with these values up to rounding and an
  equality between a stored sample and a bound is not a property of the embedding.
\<close>

definition sweep :: "real \<Rightarrow> real \<Rightarrow> nat \<Rightarrow> real list" where
  "sweep lo hi n = map (\<lambda>y. 10 powr y) (linspace (log 10 lo) (log 10 hi) n)"

text \<open>
  The spec's wording of the impedances and of the transfer function, to compare the code
  with: the cartridge impedance \<open>R_cart + i \<omega> L\<close>, the load impedance
  \<open>R_load / (1 + i \<omega> R_load C)\<close> and \<open>H = Z_load / (Z_cart + Z_load)\<close>. None of the three
  definitions uses a definition of the code above.
\<close>

definition Z_cart_spec :: "real \<Rightarrow> real \<Rightarrow> real \<Rightarrow> complex" where
  "Z_cart_spec R_cart L omega = Complex R_cart (omega * L)"

definition Z_load_spec :: "real \<Rightarrow> real \<Rightarrow> real \<Rightarrow> complex" where
  "Z_load_spec R_load C omega =
     of_real R_load / (1 + \<i> * of_real omega * of_real R_load * of_real C)"

definition H_spec :: "real \<Rightarrow> real \<Rightarrow> real \<Rightarrow> real \<Rightarrow> real \<Rightarrow> complex" where
  "H_spec R_cart L R_load C omega =
     Z_load_spec R_load C omega / (Z_cart_spec R_cart L omega + Z_load_spec R_load C omega)"

text \<open>
  With the load impedance in closed form the transfer function is \<open>R_load\<close> over
  \<open>(R_cart + i \<omega> L) (1 + i \<omega> R_load C) + R_load\<close>. The squared modulus of that
  denominator is a quadratic polynomial in \<open>x = \<omega>\<^sup>2\<close>:
\<close>

definition denominator_sq :: "real \<Rightarrow> real \<Rightarrow> real \<Rightarrow> real \<Rightarrow> real \<Rightarrow> real" where
  "denominator_sq R_cart L R_load C x =
     (L * R_load * C)\<^sup>2 * x\<^sup>2
     + ((L + R_cart * R_load * C)\<^sup>2 - 2 * (R_cart + R_load) * (L * R_load * C)) * x
     + (R_cart + R_load)\<^sup>2"

section \<open>The report renderer\<close>

text \<open>
  Of \<^verbatim>\<open>plot_cartridge_response\<close> the embedding keeps the two calls of the calculator, the
  peak search on the audible sweep and the console report; the drawing of the chart and the
  writing of the image file are left out, and with them the parameters that only reach the
  chart (\<^verbatim>\<open>use_log_scale\<close>, \<^verbatim>\<open>output_file\<close>, \<^verbatim>\<open>output_dir\<close>, \<^verbatim>\<open>show_phase\<close>). The
  numbers of the report are kept as numbers, not as formatted text.
\<close>

datatype tier = Significant_treble_boost | Moderate_treble_lift | Well_damped

definition peak_tier :: "real \<Rightarrow> tier" where
  \<comment> \<open>The \<^verbatim>\<open>if peak_mag > 3.0: ... elif peak_mag > 1.0: ... else: ...\<close> chain.\<close>
  "peak_tier peak_mag =
     (if peak_mag > 3 then Significant_treble_boost
      else if peak_mag > 1 then Moderate_treble_lift
      else Well_damped)"

definition damping :: "real \<Rightarrow> string" where
  \<comment> \<open>The conditional expression of the \<^verbatim>\<open>Damping:\<close> line.\<close>
  "damping Q =
     (if Q > 1 then ''Under-damped (resonant peak visible)''
      else ''Critically/Over-damped (minimal peak)'')"

text \<open>
  To say how often and in which order the renderer calls the calculator, a call is an
  effect: \<open>invoke\<close> runs the calculator and appends its arguments to the log of calls that
  is threaded through the renderer. The log is empty when the renderer starts.
\<close>

type_synonym calc_call = "real \<times> real \<times> real \<times> real \<times> (real \<times> real) \<times> int"

definition invoke ::
  "real \<Rightarrow> real \<Rightarrow> real \<Rightarrow> real \<Rightarrow> real \<times> real \<Rightarrow> int \<Rightarrow> calc_call list
     \<Rightarrow> (py_error + response) \<times> calc_call list" where
  "invoke L_cart R_cart R_load C_total freq_range num_points calls =
     (cartridge_frequency_response L_cart R_cart R_load C_total freq_range num_points,
      calls @ [(L_cart, R_cart, R_load, C_total, freq_range, num_points)])"

record console_report =
  ideal_lc_resonance :: "real option"
  actual_peak_freq :: "real option"
  peak_magnitude :: real
  q_factor :: "real option"
  damping_line :: "string option"
  interpretation_tier :: tier

definition plot_cartridge_response ::
  "real \<Rightarrow> real \<Rightarrow> real \<Rightarrow> real \<Rightarrow> (py_error + console_report option) \<times> calc_call list" where
  \<comment> \<open>The result is the console report, or the exception that ended the renderer, together
      with the log of the calls made. When a magnitude of the audible sweep is an IEEE
      special value the code still prints a report, whose peak and tier depend on which
      special value it is; the embedding does not track that and gives \<open>None\<close> for the
      report. Likewise the damping line is \<open>None\<close> when \<open>Q\<close> is a special value.\<close>
  "plot_cartridge_response L_cart R_cart R_load C_total =
     (case invoke L_cart R_cart R_load C_total (20, 20000) 2000 [] of
        (Inl e, calls1) \<Rightarrow> (Inl e, calls1)
      | (Inr audible, calls1) \<Rightarrow>
          (case invoke L_cart R_cart R_load C_total (20, 50000) 3000 calls1 of
             (Inl e, calls2) \<Rightarrow> (Inl e, calls2)
           | (Inr extended, calls2) \<Rightarrow>
               (case those (magnitude_dB audible) of
                  None \<Rightarrow> (Inr None, calls2)
                | Some mag_audible \<Rightarrow>
                    (case np_argmax mag_audible of
                       Inl e \<Rightarrow> (Inl e, calls2)
                     | Inr peak_idx \<Rightarrow>
                         let peak_freq = frequencies audible ! peak_idx;
                             peak_mag = mag_audible ! peak_idx
                         in (Inr (Some
                               \<lparr>ideal_lc_resonance = f_res_ideal audible,
                                actual_peak_freq = peak_freq,
                                peak_magnitude = peak_mag,
                                q_factor = Q_factor audible,
                                damping_line = map_option damping (Q_factor audible),
                                interpretation_tier = peak_tier peak_mag\<rparr>),
                             calls2)))))"

section \<open>The entry point: scale and phase options\<close>

text \<open>
  A Python string is modelled as a HOL string, one \<^typ>\<open>char\<close> for each code point below
  256. \<^verbatim>\<open>str.strip()\<close> removes leading and trailing whitespace and \<^verbatim>\<open>str.lower()\<close> maps
  the upper-case letters of that range to lower case.
\<close>

definition py_isspace :: "char \<Rightarrow> bool" where
  "py_isspace c =
     (let n = (of_char c :: nat)
      in (9 \<le> n \<and> n \<le> 13) \<or> (28 \<le> n \<and> n \<le> 32) \<or> n = 133 \<or> n = 160)"

definition py_strip :: "string \<Rightarrow> string" where
  "py_strip s = rev (dropWhile py_isspace (rev (dropWhile py_isspace s)))"

definition lower_char :: "char \<Rightarrow> char" where
  "lower_char c =
     (let n = (of_char c :: nat)
      in if (65 \<le> n \<and> n \<le> 90) \<or> (192 \<le> n \<and> n \<le> 222 \<and> n \<noteq> 215)
         then char_of (n + 32) else c)"

definition py_lower :: "string \<Rightarrow> string" where
  "py_lower s = map lower_char s"

definition cli_use_log :: "string list \<Rightarrow> bool" where
  \<comment> \<open>\<^verbatim>\<open>sys.argv[5].lower() in ['log', 'logarithmic', 'true', '1'] if len(sys.argv) > 5 else True\<close>\<close>
  "cli_use_log argv =
     (if length argv > 5
      then py_lower (argv ! 5) \<in> set [''log'', ''logarithmic'', ''true'', ''1'']
      else True)"

definition cli_show_phase :: "string list \<Rightarrow> bool" where
  \<comment> \<open>\<^verbatim>\<open>sys.argv[6].lower() in ['phase', 'true', '1', 'yes'] if len(sys.argv) > 6 else True\<close>\<close>
  "cli_show_phase argv =
     (if length argv > 6
      then py_lower (argv ! 6) \<in> set [''phase'', ''true'', ''1'', ''yes'']
      else True)"

definition interactive_use_log :: "string \<Rightarrow> bool" where
  \<comment> \<open>The argument is the line that \<^verbatim>\<open>input\<close> returned at the scale prompt.\<close>
  "interactive_use_log line =
     (let scale_input = py_lower (py_strip line)
      in scale_input \<in> set ['''', ''log'', ''logarithmic''])"

definition interactive_show_phase :: "string \<Rightarrow> bool" where
  \<comment> \<open>The argument is the line that \<^verbatim>\<open>input\<close> returned at the phase prompt.\<close>
  "interactive_show_phase line =
     (let phase_input = py_lower (py_strip line)
      in phase_input \<in> set ['''', ''yes'', ''y'', ''true'', ''1''])"

section \<open>Properties of the numeric model\<close>

lemma length_linspace: "length (linspace a b n) = n"
  by (simp add: linspace_def Let_def)

lemma linspace_nth:
  assumes "i < n"
  shows "linspace a b n ! i = (if n \<le> 1 then a else a + real i * ((b - a) / real (n - 1)))"
proof (cases "n \<le> 1")
  case True
  with assms have "n = 1" "i = 0" by auto
  then show ?thesis by (simp add: linspace_def Let_def)
next
  case False
  then have n: "1 < n" by simp
  then have d: "real_of_int (int n - 1) = real (n - 1)" by (simp add: of_nat_diff)
  show ?thesis
  proof (cases "i = n - 1")
    case True
    with n show ?thesis by (simp add: linspace_def Let_def)
  next
    case False
    with n assms show ?thesis by (simp add: linspace_def Let_def d algebra_simps)
  qed
qed

lemma length_np_logspace: "length (np_logspace a b n) = n"
  by (simp add: np_logspace_def Let_def length_linspace split: option.splits)

lemma np_logspace_Some:
  "np_logspace (Some a) (Some b) n = map (\<lambda>y. Some (10 powr y)) (linspace a b n)"
  by (simp add: np_logspace_def)

section \<open>The impedances on valid inputs\<close>

lemma Re_pos_nonzero: "0 < Re z \<Longrightarrow> z \<noteq> 0"
  by auto

lemma Z_cart_eq_spec: "Z_cart R_cart L omega = Z_cart_spec R_cart L omega"
  by (simp add: Z_cart_def Z_cart_spec_def complex_eq_iff)

lemma Z_cap_Some:
  assumes "omega \<noteq> 0" "C \<noteq> 0"
  shows "Z_cap C omega = Some (1 / (\<i> * of_real omega * of_real C))"
  using assms by (simp add: Z_cap_def np_cdiv_def)

lemma parallel_closed_form:
  fixes q r :: complex
  assumes "q \<noteq> 0" "1 + r * q \<noteq> 0"
  shows "r + 1 / q \<noteq> 0" and "(r * (1 / q)) / (r + 1 / q) = r / (1 + r * q)"
proof -
  have e: "r + 1 / q = (1 + r * q) / q" using assms(1) by (simp add: field_simps)
  show "r + 1 / q \<noteq> 0" using assms by (simp add: e)
  show "(r * (1 / q)) / (r + 1 / q) = r / (1 + r * q)"
    using assms by (simp add: e)
qed

lemma one_plus_imaginary_nonzero: "1 + \<i> * of_real x \<noteq> 0"
proof
  assume "1 + \<i> * of_real x = 0"
  then have "Re (1 + \<i> * of_real x) = Re 0" by simp
  then show False by simp
qed

lemma Z_load_parallel:
  assumes "omega \<noteq> 0" "C \<noteq> 0"
  shows "Z_load R (1 / (\<i> * of_real omega * of_real C)) = Some (Z_load_spec R C omega)"
proof -
  let ?q = "\<i> * of_real omega * of_real C :: complex"
  let ?r = "of_real R :: complex"
  have q: "?q \<noteq> 0" using assms by simp
  have e: "1 + ?r * ?q = 1 + \<i> * of_real (omega * R * C)" by (simp add: mult_ac)
  have d: "1 + ?r * ?q \<noteq> 0" unfolding e by (rule one_plus_imaginary_nonzero)
  have s: "Z_load_spec R C omega = ?r / (1 + ?r * ?q)"
    by (simp add: Z_load_spec_def mult_ac)
  from parallel_closed_form [OF q d] show ?thesis
    by (simp add: Z_load_def np_cdiv_def s)
qed

lemma Re_Z_load_spec: "Re (Z_load_spec R C omega) = R / (1 + (omega * R * C)\<^sup>2)"
proof -
  have "Z_load_spec R C omega = of_real R / (1 + \<i> * of_real (omega * R * C))"
    by (simp add: Z_load_spec_def mult_ac)
  then show ?thesis
    by (simp add: Re_divide power2_eq_square)
qed

lemma Re_sum_pos:
  assumes "0 < R" "0 \<le> R_cart"
  shows "0 < Re (Z_cart_spec R_cart L omega + Z_load_spec R C omega)"
proof -
  have "0 < R / (1 + (omega * R * C)\<^sup>2)"
    using assms(1) by (intro divide_pos_pos) (auto intro: add_pos_nonneg)
  then show ?thesis using assms(2) by (simp add: Re_Z_load_spec Z_cart_spec_def)
qed

lemma Z_load_spec_nonzero: "R \<noteq> 0 \<Longrightarrow> Z_load_spec R C omega \<noteq> 0"
  using one_plus_imaginary_nonzero [of "omega * R * C"]
  by (simp add: Z_load_spec_def mult_ac)

lemma H_at_Some:
  assumes "0 < R" "0 \<le> R_cart" "omega \<noteq> 0" "C \<noteq> 0"
  shows "H_at R_cart L R C omega = Some (H_spec R_cart L R C omega)"
proof -
  have "Z_cart_spec R_cart L omega + Z_load_spec R C omega \<noteq> 0"
    using Re_sum_pos [OF assms(1,2), of L omega C] by (rule Re_pos_nonzero)
  then show ?thesis
    by (simp add: H_at_def Z_cap_Some [OF assms(3,4)] Z_load_parallel [OF assms(3,4)]
        np_cdiv_def H_spec_def Z_cart_eq_spec)
qed

lemma H_spec_nonzero:
  assumes "0 < R" "0 \<le> R_cart"
  shows "H_spec R_cart L R C omega \<noteq> 0"
proof -
  have "Z_cart_spec R_cart L omega + Z_load_spec R C omega \<noteq> 0"
    using Re_sum_pos [OF assms(1,2), of L omega C] by (rule Re_pos_nonzero)
  moreover have "Z_load_spec R C omega \<noteq> 0" using assms(1) by (simp add: Z_load_spec_nonzero)
  ultimately show ?thesis by (simp add: H_spec_def)
qed

section \<open>The calculator on valid inputs\<close>

lemma magnitude_dB_of_Some:
  "h \<noteq> 0 \<Longrightarrow> magnitude_dB_of (Some h) = Some (20 * log 10 (cmod h))"
  by (simp add: magnitude_dB_of_def np_log10_def)

lemma phase_deg_of_Some:
  "phase_deg_of (Some h) = Some (arctan2 (Im h) (Re h) * 180 / pi)"
  by (simp add: phase_deg_of_def np_angle_def)

lemma calculator_valid:
  assumes L: "L = L_cart_mH / 10 ^ 3" and R: "R_load = R_load_kohms * 10 ^ 3"
    and C: "C = C_total_pF / 10 ^ 12"
    and pos: "0 < L_cart_mH" "0 < C_total_pF" "0 < R_load_kohms" "0 \<le> R_cart"
    and rng: "0 < lo" "0 < hi" and n: "0 \<le> num_points"
  shows "cartridge_frequency_response L_cart_mH R_cart R_load_kohms C_total_pF (lo, hi) num_points =
     Inr \<lparr>frequencies = map Some (sweep lo hi (nat num_points)),
          magnitude_dB = map (\<lambda>f. Some (20 * log 10 (cmod (H_spec R_cart L R_load C (2 * pi * f)))))
                           (sweep lo hi (nat num_points)),
          phase_deg = map (\<lambda>f. Some (np_angle (H_spec R_cart L R_load C (2 * pi * f)) * 180 / pi))
                           (sweep lo hi (nat num_points)),
          f_res_ideal = Some (1 / (2 * pi * sqrt (L * C))),
          Q_factor = Some (sqrt (L / C) / (R_cart + R_load))\<rparr>"
proof -
  have Lp: "0 < L" and Cp: "0 < C" and Rp: "0 < R_load" using pos by (simp_all add: L R C)
  have H: "H_at R_cart L R_load C (2 * pi * 10 powr y) = Some (H_spec R_cart L R_load C (2 * pi * 10 powr y))" for y
    using Rp pos(4) Cp by (intro H_at_Some) auto
  have nz: "H_spec R_cart L R_load C w \<noteq> 0" for w
    using Rp pos(4) by (rule H_spec_nonzero)
  have fr: "np_logspace (np_log10 lo) (np_log10 hi) (nat num_points) = map Some (sweep lo hi (nat num_points))"
    using rng by (simp add: np_logspace_Some np_log10_def sweep_def)
  have f: "np_sqrt (L * C) \<bind> (\<lambda>s. np_div 1 (2 * pi * s)) = Some (1 / (2 * pi * sqrt (L * C)))"
    using Lp Cp by (simp add: np_sqrt_def np_div_def)
  have q: "np_sqrt (L / C) \<bind> (\<lambda>z. np_div z (R_cart + R_load)) = Some (sqrt (L / C) / (R_cart + R_load))"
    using Lp Cp Rp pos(4) by (simp add: np_sqrt_def np_div_def)
  have L': "L_cart_mH * (1 / 10 ^ 3) = L" and C': "C_total_pF * (1 / 10 ^ 12) = C"
    and R': "R_load_kohms * 10 ^ 3 = R_load" by (simp_all add: L R C)
  show ?thesis
    unfolding cartridge_frequency_response_def L' C' R' Let_def fst_conv snd_conv fr f q
    using n Cp by (simp add: sweep_def H magnitude_dB_of_Some nz phase_deg_of_Some np_angle_def o_def)
qed

section \<open>The phase is the principal argument\<close>

lemma arctan2_bounds: "- pi < arctan2 y x \<and> arctan2 y x \<le> pi"
proof -
  have lb: "- (pi / 2) < arctan (y / x)" and ub: "arctan (y / x) < pi / 2"
    by (rule arctan_lbound, rule arctan_ubound)
  consider "0 < x" | "x < 0" "0 \<le> y" | "x < 0" "y < 0" | "x = 0"
    by linarith
  then show ?thesis
  proof cases
    case 1
    then have "arctan2 y x = arctan (y / x)" by (simp add: arctan2_def)
    with lb ub pi_gt_zero show ?thesis by linarith
  next
    case 2
    then have "y / x \<le> 0" by (simp add: divide_nonneg_neg)
    then have "arctan (y / x) \<le> 0" by (simp add: arctan_le_zero_iff)
    moreover from 2 have "arctan2 y x = arctan (y / x) + pi" by (simp add: arctan2_def)
    ultimately show ?thesis using lb pi_gt_zero by linarith
  next
    case 3
    then have "0 < y / x" by (simp add: divide_neg_neg)
    then have "0 < arctan (y / x)" by (simp add: zero_less_arctan_iff)
    moreover from 3 have "arctan2 y x = arctan (y / x) - pi" by (simp add: arctan2_def)
    ultimately show ?thesis using ub pi_gt_zero by linarith
  next
    case 4
    then have "arctan2 y x = pi / 2 \<or> arctan2 y x = - (pi / 2) \<or> arctan2 y x = 0"
      by (simp add: arctan2_def)
    then show ?thesis using pi_gt_zero by linarith
  qed
qed

lemma cis_arctan2:
  assumes "x \<noteq> 0 \<or> y \<noteq> 0"
  shows "cos (arctan2 y x) = x / sqrt (x\<^sup>2 + y\<^sup>2)" and "sin (arctan2 y x) = y / sqrt (x\<^sup>2 + y\<^sup>2)"
proof -
  have key: "sqrt (1 + (y / x)\<^sup>2) = sqrt (x\<^sup>2 + y\<^sup>2) / \<bar>x\<bar>" if "x \<noteq> 0"
  proof -
    have "1 + (y / x)\<^sup>2 = (x\<^sup>2 + y\<^sup>2) / x\<^sup>2" using that by (simp add: field_simps power2_eq_square)
    then show ?thesis by (simp add: real_sqrt_divide)
  qed
  have c: "cos (arctan (y / x)) = \<bar>x\<bar> / sqrt (x\<^sup>2 + y\<^sup>2)" if "x \<noteq> 0"
    using that by (simp add: cos_arctan key)
  have s: "sin (arctan (y / x)) = (y / x) * \<bar>x\<bar> / sqrt (x\<^sup>2 + y\<^sup>2)" if "x \<noteq> 0"
    using that by (simp add: sin_arctan key)
  consider "0 < x" | "x < 0" "0 \<le> y" | "x < 0" "y < 0" | "x = 0" "0 < y" | "x = 0" "y < 0"
    using assms by linarith
  then have "cos (arctan2 y x) = x / sqrt (x\<^sup>2 + y\<^sup>2) \<and> sin (arctan2 y x) = y / sqrt (x\<^sup>2 + y\<^sup>2)"
  proof cases
    case 1
    then show ?thesis using c s by (simp add: arctan2_def)
  next
    case 2
    then show ?thesis using c s by (simp add: arctan2_def)
  next
    case 3
    then show ?thesis using c s by (simp add: arctan2_def)
  next
    case 4
    then show ?thesis by (simp add: arctan2_def)
  next
    case 5
    then show ?thesis by (simp add: arctan2_def)
  qed
  then show "cos (arctan2 y x) = x / sqrt (x\<^sup>2 + y\<^sup>2)" and "sin (arctan2 y x) = y / sqrt (x\<^sup>2 + y\<^sup>2)"
    by simp_all
qed

lemma np_angle_polar:
  assumes "z \<noteq> 0"
  shows "z = of_real (cmod z) * cis (np_angle z)"
proof -
  have nz: "Re z \<noteq> 0 \<or> Im z \<noteq> 0" using assms by (auto simp: complex_eq_iff)
  have m: "cmod z = sqrt ((Re z)\<^sup>2 + (Im z)\<^sup>2)" by (simp add: cmod_def)
  have p: "0 < cmod z" using assms by simp
  show ?thesis
    using p cis_arctan2 [OF nz] unfolding m [symmetric]
    by (simp add: complex_eq_iff np_angle_def)
qed

lemma np_angle_Arg: "np_angle z = Arg z"
proof (cases "z = 0")
  case True
  then show ?thesis by (simp add: np_angle_def arctan2_def Arg_zero)
next
  case False
  have "sgn z = cis (np_angle z)"
    using np_angle_polar [OF False] False
    by (metis Complex.cis_Arg rcis_def rcis_cmod_Arg mult_cancel_left of_real_eq_0_iff norm_eq_zero)
  then show ?thesis
    using arctan2_bounds [of "Im z" "Re z"] by (simp add: cis_Arg_unique np_angle_def)
qed

section \<open>The swept frequencies\<close>

lemma length_sweep: "length (sweep lo hi n) = n"
  by (simp add: sweep_def length_linspace)

lemma sweep_pos: "i < n \<Longrightarrow> 0 < sweep lo hi n ! i"
  by (simp add: sweep_def length_linspace)

lemma sweep_nth:
  assumes "0 < lo" "0 < hi" "i < n" "2 \<le> n"
  shows "sweep lo hi n ! i = lo * (hi / lo) powr (real i / real (n - 1))"
proof -
  have "linspace (log 10 lo) (log 10 hi) n ! i
          = log 10 lo + (real i / real (n - 1)) * log 10 (hi / lo)"
    using assms by (simp add: linspace_nth log_divide)
  then have "sweep lo hi n ! i = 10 powr (log 10 lo + (real i / real (n - 1)) * log 10 (hi / lo))"
    using assms(3) by (simp add: sweep_def length_linspace)
  also have "\<dots> = 10 powr (log 10 lo) * (10 powr (log 10 (hi / lo))) powr (real i / real (n - 1))"
    by (simp add: powr_add powr_powr mult.commute)
  also have "\<dots> = lo * (hi / lo) powr (real i / real (n - 1))"
    using assms(1,2) by simp
  finally show ?thesis .
qed

section \<open>Claims about the calculator\<close>

text \<open>
  Claim C1. For an inductance, a capacitance and a load resistance above zero, a cartridge
  resistance that is not negative and positive frequency bounds, the call returns, and at
  every sample index \<open>i\<close> the magnitude is \<open>20 log10 |H|\<close> and the phase is
  \<open>atan2 (Im H, Re H) 180 / \<pi>\<close>, a value in \<open>(-180, 180]\<close> that is the principal argument of
  \<open>H\<close>. Here \<open>H = Z_load / (Z_cart + Z_load)\<close> with \<open>Z_cart = R_cart + i \<omega> L\<close> and
  \<open>Z_load = R_load / (1 + i \<omega> R_load C)\<close>, written out in the statement, at the angular
  frequency \<open>\<omega> = 2 \<pi> f\<close> of the sample and with the components converted to henries, ohms
  and farads. The cartridge impedance, the parallel combination and the transfer function
  that the code computes at the sample are these.
\<close>

theorem response_is_transfer_function:
  assumes L: "L = L_cart_mH / 10 ^ 3" and R: "R_load = R_load_kohms * 10 ^ 3"
    and C: "C = C_total_pF / 10 ^ 12"
    and pos: "0 < L_cart_mH" "0 < C_total_pF" "0 < R_load_kohms" "0 \<le> R_cart"
    and rng: "0 < lo" "0 < hi" and i: "i < nat num_points"
  shows "\<exists>r f. cartridge_frequency_response L_cart_mH R_cart R_load_kohms C_total_pF (lo, hi) num_points = Inr r
           \<and> frequencies r ! i = Some f
           \<and> magnitude_dB r ! i = Some (20 * log 10 (cmod (H_spec R_cart L R_load C (2 * pi * f))))
           \<and> phase_deg r ! i =
               Some (arctan2 (Im (H_spec R_cart L R_load C (2 * pi * f)))
                             (Re (H_spec R_cart L R_load C (2 * pi * f))) * 180 / pi)
           \<and> - 180 < arctan2 (Im (H_spec R_cart L R_load C (2 * pi * f)))
                             (Re (H_spec R_cart L R_load C (2 * pi * f))) * 180 / pi
           \<and> arctan2 (Im (H_spec R_cart L R_load C (2 * pi * f)))
                      (Re (H_spec R_cart L R_load C (2 * pi * f))) * 180 / pi \<le> 180
           \<and> arctan2 (Im (H_spec R_cart L R_load C (2 * pi * f)))
                      (Re (H_spec R_cart L R_load C (2 * pi * f)))
               = Arg (H_spec R_cart L R_load C (2 * pi * f))
           \<and> H_spec R_cart L R_load C (2 * pi * f) =
               (of_real R_load / (1 + \<i> * of_real (2 * pi * f) * of_real R_load * of_real C))
               / (Complex R_cart (2 * pi * f * L)
                  + of_real R_load / (1 + \<i> * of_real (2 * pi * f) * of_real R_load * of_real C))
           \<and> Z_cart R_cart L (2 * pi * f) = Complex R_cart (2 * pi * f * L)
           \<and> (Z_cap C (2 * pi * f) \<bind> Z_load R_load)
               = Some (of_real R_load / (1 + \<i> * of_real (2 * pi * f) * of_real R_load * of_real C))
           \<and> H_at R_cart L R_load C (2 * pi * f) = Some (H_spec R_cart L R_load C (2 * pi * f))"
proof -
  let ?n = "nat num_points"
  let ?f = "sweep lo hi ?n ! i"
  let ?h = "H_spec R_cart L R_load C (2 * pi * ?f)"
  have n: "0 \<le> num_points" using i by simp
  have len: "i < length (sweep lo hi ?n)" using i by (simp add: length_sweep)
  have f: "0 < ?f" using i by (rule sweep_pos)
  then have w: "2 * pi * ?f \<noteq> 0" by simp
  have Cnz: "C \<noteq> 0" and Rp: "0 < R_load" using pos(2,3) by (simp_all add: C R)
  have b: "- pi < arctan2 (Im ?h) (Re ?h)" "arctan2 (Im ?h) (Re ?h) \<le> pi"
    using arctan2_bounds [of "Im ?h" "Re ?h"] by simp_all
  have lo': "- 180 < arctan2 (Im ?h) (Re ?h) * 180 / pi"
    using b(1) pi_gt_zero by (simp add: field_simps)
  have hi': "arctan2 (Im ?h) (Re ?h) * 180 / pi \<le> 180"
    using b(2) pi_gt_zero by (simp add: field_simps)
  have a: "arctan2 (Im ?h) (Re ?h) = Arg ?h"
    using np_angle_Arg [of ?h] by (simp add: np_angle_def)
  have e: "?h = (of_real R_load / (1 + \<i> * of_real (2 * pi * ?f) * of_real R_load * of_real C))
               / (Complex R_cart (2 * pi * ?f * L)
                  + of_real R_load / (1 + \<i> * of_real (2 * pi * ?f) * of_real R_load * of_real C))"
    by (simp only: H_spec_def Z_load_spec_def Z_cart_spec_def)
  have zc: "Z_cart R_cart L (2 * pi * ?f) = Complex R_cart (2 * pi * ?f * L)"
    by (simp only: Z_cart_eq_spec Z_cart_spec_def)
  have z: "(Z_cap C (2 * pi * ?f) \<bind> Z_load R_load)
             = Some (of_real R_load / (1 + \<i> * of_real (2 * pi * ?f) * of_real R_load * of_real C))"
    by (simp only: Z_cap_Some [OF w Cnz] Z_load_parallel [OF w Cnz] bind.bind_lunit
        Z_load_spec_def)
  have h: "H_at R_cart L R_load C (2 * pi * ?f) = Some ?h"
    using Rp pos(4) w Cnz by (rule H_at_Some)
  have r: "cartridge_frequency_response L_cart_mH R_cart R_load_kohms C_total_pF (lo, hi) num_points =
     Inr \<lparr>frequencies = map Some (sweep lo hi (nat num_points)),
          magnitude_dB = map (\<lambda>f. Some (20 * log 10 (cmod (H_spec R_cart L R_load C (2 * pi * f)))))
                           (sweep lo hi (nat num_points)),
          phase_deg = map (\<lambda>f. Some (np_angle (H_spec R_cart L R_load C (2 * pi * f)) * 180 / pi))
                           (sweep lo hi (nat num_points)),
          f_res_ideal = Some (1 / (2 * pi * sqrt (L * C))),
          Q_factor = Some (sqrt (L / C) / (R_cart + R_load))\<rparr>" (is "_ = Inr ?r")
    using L R C pos rng n by (rule calculator_valid)
  have r1: "frequencies ?r ! i = Some ?f" using len by simp
  have r2: "magnitude_dB ?r ! i = Some (20 * log 10 (cmod ?h))" using len by simp
  have r3: "phase_deg ?r ! i = Some (arctan2 (Im ?h) (Re ?h) * 180 / pi)"
    using len by (simp add: np_angle_def)
  from r r1 r2 r3 lo' hi' a e zc z h show ?thesis by blast
qed

theorem response_is_transfer_function_witness:
  "\<exists>r f. cartridge_frequency_response 500 600 47 200 (20, 20000) 2000 = Inr r
           \<and> frequencies r ! 0 = Some f
           \<and> magnitude_dB r ! 0 = Some (20 * log 10 (cmod (H_spec 600 (500 / 10 ^ 3) (47 * 10 ^ 3) (200 / 10 ^ 12) (2 * pi * f))))
           \<and> Z_cart 600 (500 / 10 ^ 3) (2 * pi * f) = Complex 600 (2 * pi * f * (500 / 10 ^ 3))
           \<and> (Z_cap (200 / 10 ^ 12) (2 * pi * f) \<bind> Z_load (47 * 10 ^ 3))
                = Some (of_real (47 * 10 ^ 3)
                        / (1 + \<i> * of_real (2 * pi * f) * of_real (47 * 10 ^ 3) * of_real (200 / 10 ^ 12)))"
proof -
  have h: "(0::real) < 500" "(0::real) < 200" "(0::real) < 47" "(0::real) \<le> 600"
    "(0::real) < 20" "(0::real) < 20000" "(0::nat) < nat 2000"
    by simp_all
  from response_is_transfer_function
    [OF refl refl refl h]
  show ?thesis by blast
qed

lemma calculator_returns:
  assumes "C_total_pF \<noteq> 0" "0 \<le> num_points"
  shows "\<exists>r. cartridge_frequency_response L_cart_mH R_cart R_load_kohms C_total_pF freq_range num_points = Inr r
          \<and> frequencies r = np_logspace (np_log10 (fst freq_range)) (np_log10 (snd freq_range)) (nat num_points)
          \<and> length (magnitude_dB r) = nat num_points
          \<and> length (phase_deg r) = nat num_points
          \<and> f_res_ideal r = np_sqrt (L_cart_mH / 10 ^ 3 * (C_total_pF / 10 ^ 12)) \<bind> (\<lambda>s. np_div 1 (2 * pi * s))
          \<and> Q_factor r = np_sqrt (L_cart_mH / 10 ^ 3 / (C_total_pF / 10 ^ 12))
                             \<bind> (\<lambda>z. np_div z (R_cart + R_load_kohms * 10 ^ 3))"
  using assms by (simp add: cartridge_frequency_response_def Let_def length_np_logspace)

text \<open>
  Claim C3. For valid components the returned quality factor is
  \<open>sqrt (L / C) / (R_cart + R_load)\<close>, with \<open>L\<close> in henries, \<open>C\<close> in farads and the load
  resistance converted from kilohms to ohms before the sum; a second call with another
  frequency range and another sample count returns the same quality factor.
\<close>

theorem quality_factor_closed_form:
  assumes L: "L = L_cart_mH / 10 ^ 3" and R: "R_load = R_load_kohms * 10 ^ 3"
    and C: "C = C_total_pF / 10 ^ 12"
    and pos: "0 < L_cart_mH" "0 < C_total_pF" "0 < R_load_kohms" "0 \<le> R_cart"
    and n: "0 \<le> num_points" "0 \<le> num_points'"
  shows "\<exists>r r'. cartridge_frequency_response L_cart_mH R_cart R_load_kohms C_total_pF freq_range num_points = Inr r
           \<and> Q_factor r = Some (sqrt (L / C) / (R_cart + R_load))
           \<and> cartridge_frequency_response L_cart_mH R_cart R_load_kohms C_total_pF freq_range' num_points' = Inr r'
           \<and> Q_factor r' = Q_factor r"
proof -
  have Cnz: "C_total_pF \<noteq> 0" using pos(2) by simp
  have q: "np_sqrt (L / C) \<bind> (\<lambda>z. np_div z (R_cart + R_load)) = Some (sqrt (L / C) / (R_cart + R_load))"
    using pos by (simp add: np_sqrt_def np_div_def L R C)
  from calculator_returns [OF Cnz n(1), of L_cart_mH R_cart R_load_kohms freq_range]
    calculator_returns [OF Cnz n(2), of L_cart_mH R_cart R_load_kohms freq_range']
  show ?thesis unfolding L [symmetric] R [symmetric] C [symmetric] q by auto
qed

theorem quality_factor_closed_form_witness:
  "\<exists>r r'. cartridge_frequency_response 500 600 47 200 (20, 20000) 2000 = Inr r
      \<and> Q_factor r = Some (sqrt ((500 / 10 ^ 3) / (200 / 10 ^ 12)) / (600 + 47 * 10 ^ 3))
      \<and> cartridge_frequency_response 500 600 47 200 (20, 50000) 3000 = Inr r'
      \<and> Q_factor r' = Q_factor r"
proof -
  have h: "(0::real) < 500" "(0::real) < 200" "(0::real) < 47" "(0::real) \<le> 600"
    "(0::int) \<le> 2000" "(0::int) \<le> 3000"
    by simp_all
  from quality_factor_closed_form [OF refl refl refl h, of "(20, 20000)" "(20, 50000)"]
  show ?thesis .
qed

text \<open>
  Claim C4. For a positive inductance and a positive capacitance the returned ideal
  resonance is \<open>1 / (2 \<pi> sqrt (L C))\<close>, with \<open>L\<close> in henries and \<open>C\<close> in farads; a second
  call with another frequency range and another sample count returns the same value.
\<close>

theorem ideal_resonance_closed_form:
  assumes L: "L = L_cart_mH / 10 ^ 3" and C: "C = C_total_pF / 10 ^ 12"
    and pos: "0 < L_cart_mH" "0 < C_total_pF"
    and n: "0 \<le> num_points" "0 \<le> num_points'"
  shows "\<exists>r r'. cartridge_frequency_response L_cart_mH R_cart R_load_kohms C_total_pF freq_range num_points = Inr r
           \<and> f_res_ideal r = Some (1 / (2 * pi * sqrt (L * C)))
           \<and> cartridge_frequency_response L_cart_mH R_cart R_load_kohms C_total_pF freq_range' num_points' = Inr r'
           \<and> f_res_ideal r' = f_res_ideal r"
proof -
  have Cnz: "C_total_pF \<noteq> 0" using pos(2) by simp
  have f: "np_sqrt (L * C) \<bind> (\<lambda>s. np_div 1 (2 * pi * s)) = Some (1 / (2 * pi * sqrt (L * C)))"
    using pos by (simp add: np_sqrt_def np_div_def L C)
  from calculator_returns [OF Cnz n(1), of L_cart_mH R_cart R_load_kohms freq_range]
    calculator_returns [OF Cnz n(2), of L_cart_mH R_cart R_load_kohms freq_range']
  show ?thesis unfolding L [symmetric] C [symmetric] f by auto
qed

theorem ideal_resonance_closed_form_witness:
  "\<exists>r r'. cartridge_frequency_response 500 600 47 200 (20, 20000) 2000 = Inr r
      \<and> f_res_ideal r = Some (1 / (2 * pi * sqrt ((500 / 10 ^ 3) * (200 / 10 ^ 12))))
      \<and> cartridge_frequency_response 500 600 47 200 (20, 50000) 3000 = Inr r'
      \<and> f_res_ideal r' = f_res_ideal r"
proof -
  have h: "(0::real) < 500" "(0::real) < 200" "(0::int) \<le> 2000" "(0::int) \<le> 3000"
    by simp_all
  from ideal_resonance_closed_form [OF refl refl h, of 600 47 "(20, 20000)" "(20, 50000)"]
  show ?thesis .
qed

section \<open>Claims about the entry point\<close>

lemma py_lower_tokens:
  "py_lower ''true'' = ''true''" "py_lower ''1'' = ''1''" "py_lower ''y'' = ''y''"
  by code_simp+

text \<open>
  Claim C10. At the interactive prompts the logarithmic axis is chosen exactly when the
  stripped, lower-cased answer is empty, \<open>log\<close> or \<open>logarithmic\<close>, and the phase is shown
  exactly when it is empty, \<open>yes\<close>, \<open>y\<close>, \<open>true\<close> or \<open>1\<close>. So \<open>true\<close> and \<open>1\<close>, which
  choose the logarithmic axis as the fifth command-line argument, choose the linear axis at
  the prompt, and \<open>y\<close>, which hides the phase as the sixth command-line argument, shows it
  at the prompt.
\<close>

theorem interactive_options:
  "(interactive_use_log line \<longleftrightarrow>
      py_lower (py_strip line) = '''' \<or> py_lower (py_strip line) = ''log''
      \<or> py_lower (py_strip line) = ''logarithmic'')
   \<and> (interactive_show_phase line \<longleftrightarrow>
      py_lower (py_strip line) = '''' \<or> py_lower (py_strip line) = ''yes''
      \<or> py_lower (py_strip line) = ''y'' \<or> py_lower (py_strip line) = ''true''
      \<or> py_lower (py_strip line) = ''1'')
   \<and> interactive_use_log '' Log '' = True
   \<and> interactive_use_log ''true'' = False
   \<and> interactive_use_log ''1'' = False
   \<and> cli_use_log (a0 # a1 # a2 # a3 # a4 # ''true'' # rest) = True
   \<and> cli_use_log (a0 # a1 # a2 # a3 # a4 # ''1'' # rest) = True
   \<and> interactive_show_phase ''y'' = True
   \<and> cli_show_phase (a0 # a1 # a2 # a3 # a4 # a5 # ''y'' # rest) = False"
proof -
  have scale: "interactive_use_log line \<longleftrightarrow>
      py_lower (py_strip line) = '''' \<or> py_lower (py_strip line) = ''log''
      \<or> py_lower (py_strip line) = ''logarithmic''"
    by (simp add: interactive_use_log_def Let_def)
  have phase: "interactive_show_phase line \<longleftrightarrow>
      py_lower (py_strip line) = '''' \<or> py_lower (py_strip line) = ''yes''
      \<or> py_lower (py_strip line) = ''y'' \<or> py_lower (py_strip line) = ''true''
      \<or> py_lower (py_strip line) = ''1''"
    by (simp add: interactive_show_phase_def Let_def)
  have i1: "interactive_use_log '' Log '' = True" by code_simp
  have i2: "interactive_use_log ''true'' = False" by code_simp
  have i3: "interactive_use_log ''1'' = False" by code_simp
  have i4: "interactive_show_phase ''y'' = True" by code_simp
  have c1: "cli_use_log (a0 # a1 # a2 # a3 # a4 # ''true'' # rest) = True"
    by (simp add: cli_use_log_def py_lower_tokens)
  have c2: "cli_use_log (a0 # a1 # a2 # a3 # a4 # ''1'' # rest) = True"
    by (simp add: cli_use_log_def py_lower_tokens)
  have c3: "cli_show_phase (a0 # a1 # a2 # a3 # a4 # a5 # ''y'' # rest) = False"
    by (simp add: cli_show_phase_def py_lower_tokens)
  from scale phase i1 i2 i3 i4 c1 c2 c3 show ?thesis by blast
qed

section \<open>The peak search\<close>

lemma argmax_from_spec:
  assumes "i = length ys" "best < length ys" "ys ! best = bv"
    and "\<forall>j < length ys. ys ! j \<le> bv" and "\<forall>j < best. ys ! j < bv"
  shows "argmax_from xs i best bv < length (ys @ xs)
         \<and> (\<forall>j < length (ys @ xs). (ys @ xs) ! j \<le> (ys @ xs) ! argmax_from xs i best bv)
         \<and> (\<forall>j < argmax_from xs i best bv. (ys @ xs) ! j < (ys @ xs) ! argmax_from xs i best bv)"
  using assms
proof (induction xs arbitrary: ys i best bv)
  case Nil
  then show ?case by simp
next
  case (Cons x xs)
  let ?ys = "ys @ [x]"
  have len: "Suc i = length ?ys" using Cons.prems(1) by simp
  show ?case
  proof (cases "bv < x")
    case True
    have a: "i < length ?ys" using Cons.prems(1) by simp
    have b: "?ys ! i = x" using Cons.prems(1) by simp
    have c: "\<forall>j < length ?ys. ?ys ! j \<le> x"
    proof (intro allI impI)
      fix j assume "j < length ?ys"
      then consider "j < length ys" | "j = length ys" by fastforce
      then show "?ys ! j \<le> x"
      proof cases
        case 1
        then have "ys ! j \<le> bv" using Cons.prems(4) by simp
        with 1 True show ?thesis by (simp add: nth_append)
      next
        case 2
        then show ?thesis by simp
      qed
    qed
    have d: "\<forall>j < i. ?ys ! j < x"
    proof (intro allI impI)
      fix j assume "j < i"
      then have j: "j < length ys" using Cons.prems(1) by simp
      then have "ys ! j \<le> bv" using Cons.prems(4) by simp
      with j True show "?ys ! j < x" by (simp add: nth_append)
    qed
    from Cons.IH [OF len a b c d] True show ?thesis by simp
  next
    case False
    have a: "best < length ?ys" using Cons.prems(2) by simp
    have b: "?ys ! best = bv" using Cons.prems(2,3) by (simp add: nth_append)
    have c: "\<forall>j < length ?ys. ?ys ! j \<le> bv"
    proof (intro allI impI)
      fix j assume "j < length ?ys"
      then consider "j < length ys" | "j = length ys" by fastforce
      then show "?ys ! j \<le> bv"
      proof cases
        case 1
        then show ?thesis using Cons.prems(4) by (simp add: nth_append)
      next
        case 2
        then show ?thesis using False by simp
      qed
    qed
    have d: "\<forall>j < best. ?ys ! j < bv"
      using Cons.prems(2,5) by (simp add: nth_append)
    from Cons.IH [OF len a b c d] False show ?thesis by simp
  qed
qed

lemma np_argmax_spec:
  assumes "np_argmax a = Inr p"
  shows "p < length a \<and> (\<forall>j < length a. a ! j \<le> a ! p) \<and> (\<forall>j < p. a ! j < a ! p)"
proof (cases a)
  case Nil
  with assms show ?thesis by (simp add: np_argmax_def)
next
  case (Cons x xs)
  with assms have p: "p = argmax_from xs 1 0 x" by (simp add: np_argmax_def)
  have "argmax_from xs 1 0 x < length ([x] @ xs)
         \<and> (\<forall>j < length ([x] @ xs). ([x] @ xs) ! j \<le> ([x] @ xs) ! argmax_from xs 1 0 x)
         \<and> (\<forall>j < argmax_from xs 1 0 x. ([x] @ xs) ! j < ([x] @ xs) ! argmax_from xs 1 0 x)"
    by (rule argmax_from_spec) simp_all
  then show ?thesis by (simp add: p Cons)
qed

lemma np_argmax_nonempty: "a \<noteq> [] \<Longrightarrow> \<exists>p. np_argmax a = Inr p"
  by (cases a) (simp_all add: np_argmax_def)

lemma those_map_Some: "those (map (\<lambda>x. Some (g x)) xs) = Some (map g xs)"
  by (induction xs) simp_all

lemma those_nth:
  assumes "those xs = Some ys" "i < length ys"
  shows "xs ! i = Some (ys ! i)"
  using assms
proof (induction xs arbitrary: ys i)
  case Nil
  then show ?case by simp
next
  case (Cons x xs)
  then show ?case by (cases i) (auto split: option.splits)
qed

section \<open>The renderer on valid inputs\<close>

lemma plot_cartridge_response_valid:
  assumes L: "L = L_cart / 10 ^ 3" and R: "R = R_load * 10 ^ 3" and C: "C = C_total / 10 ^ 12"
    and pos: "0 < L_cart" "0 < C_total" "0 < R_load" "0 \<le> R_cart"
  shows "\<exists>audible extended mags p.
           cartridge_frequency_response L_cart R_cart R_load C_total (20, 20000) 2000 = Inr audible
           \<and> cartridge_frequency_response L_cart R_cart R_load C_total (20, 50000) 3000 = Inr extended
           \<and> those (magnitude_dB audible) = Some mags
           \<and> mags = map (\<lambda>f. 20 * log 10 (cmod (H_spec R_cart L R C (2 * pi * f))))
                        (sweep 20 20000 2000)
           \<and> frequencies audible = map Some (sweep 20 20000 2000)
           \<and> np_argmax mags = Inr p
           \<and> f_res_ideal audible = Some (1 / (2 * pi * sqrt (L * C)))
           \<and> Q_factor audible = Some (sqrt (L / C) / (R_cart + R))
           \<and> plot_cartridge_response L_cart R_cart R_load C_total =
               (Inr (Some \<lparr>ideal_lc_resonance = f_res_ideal audible,
                           actual_peak_freq = frequencies audible ! p,
                           peak_magnitude = mags ! p,
                           q_factor = Q_factor audible,
                           damping_line = map_option damping (Q_factor audible),
                           interpretation_tier = peak_tier (mags ! p)\<rparr>),
                [(L_cart, R_cart, R_load, C_total, (20, 20000), 2000),
                 (L_cart, R_cart, R_load, C_total, (20, 50000), 3000)])"
proof -
  let ?g = "\<lambda>f. 20 * log 10 (cmod (H_spec R_cart L R C (2 * pi * f)))"
  let ?ph = "\<lambda>f. np_angle (H_spec R_cart L R C (2 * pi * f)) * 180 / pi"
  let ?aud = "\<lparr>frequencies = map Some (sweep 20 20000 (nat 2000)),
          magnitude_dB = map (\<lambda>f. Some (?g f)) (sweep 20 20000 (nat 2000)),
          phase_deg = map (\<lambda>f. Some (?ph f)) (sweep 20 20000 (nat 2000)),
          f_res_ideal = Some (1 / (2 * pi * sqrt (L * C))),
          Q_factor = Some (sqrt (L / C) / (R_cart + R))\<rparr>"
  let ?ext = "\<lparr>frequencies = map Some (sweep 20 50000 (nat 3000)),
          magnitude_dB = map (\<lambda>f. Some (?g f)) (sweep 20 50000 (nat 3000)),
          phase_deg = map (\<lambda>f. Some (?ph f)) (sweep 20 50000 (nat 3000)),
          f_res_ideal = Some (1 / (2 * pi * sqrt (L * C))),
          Q_factor = Some (sqrt (L / C) / (R_cart + R))\<rparr>"
  have a: "cartridge_frequency_response L_cart R_cart R_load C_total (20, 20000) 2000 = Inr ?aud"
    by (rule calculator_valid [OF L R C pos]) simp_all
  have b: "cartridge_frequency_response L_cart R_cart R_load C_total (20, 50000) 3000 = Inr ?ext"
    by (rule calculator_valid [OF L R C pos]) simp_all
  let ?mags = "map ?g (sweep 20 20000 2000)"
  have th: "those (magnitude_dB ?aud) = Some ?mags" by (simp add: those_map_Some)
  have "length ?mags = 2000" by (simp add: length_sweep)
  then have "?mags \<noteq> []" by auto
  then obtain p where p: "np_argmax ?mags = Inr p" using np_argmax_nonempty by blast
  have pl: "plot_cartridge_response L_cart R_cart R_load C_total =
               (Inr (Some \<lparr>ideal_lc_resonance = f_res_ideal ?aud,
                           actual_peak_freq = frequencies ?aud ! p,
                           peak_magnitude = ?mags ! p,
                           q_factor = Q_factor ?aud,
                           damping_line = map_option damping (Q_factor ?aud),
                           interpretation_tier = peak_tier (?mags ! p)\<rparr>),
                [(L_cart, R_cart, R_load, C_total, (20, 20000), 2000),
                 (L_cart, R_cart, R_load, C_total, (20, 50000), 3000)])"
    unfolding plot_cartridge_response_def invoke_def a b prod.case sum.case th option.case p
    by (simp add: Let_def)
  have fq: "frequencies ?aud = map Some (sweep 20 20000 2000)" by simp
  have fr: "f_res_ideal ?aud = Some (1 / (2 * pi * sqrt (L * C)))" by simp
  have q: "Q_factor ?aud = Some (sqrt (L / C) / (R_cart + R))" by simp
  from a b th p pl fq fr q show ?thesis by blast
qed

text \<open>
  With a capacitance of zero the first call raises, and the log holds that call alone.
\<close>

lemma plot_cartridge_response_zero_capacitance:
  "plot_cartridge_response L_cart R_cart R_load 0 =
     (Inl ZeroDivisionError, [(L_cart, R_cart, R_load, 0, (20, 20000), 2000)])"
  by (simp add: plot_cartridge_response_def invoke_def cartridge_frequency_response_def Let_def)

section \<open>The modulus of the transfer function\<close>

lemma H_spec_reciprocal:
  assumes "0 < R" "0 \<le> R_cart"
  shows "H_spec R_cart L R C w =
           of_real R / Complex (R_cart + R - w\<^sup>2 * (L * R * C)) (w * (L + R_cart * R * C))"
proof -
  let ?u = "1 + \<i> * of_real w * of_real R * of_real C :: complex"
  let ?zc = "Z_cart_spec R_cart L w"
  have u: "?u \<noteq> 0"
    using one_plus_imaginary_nonzero [of "w * R * C"] by (simp add: mult_ac)
  have zl: "Z_load_spec R C w = of_real R / ?u" by (simp add: Z_load_spec_def)
  have s: "?zc + of_real R / ?u = (?zc * ?u + of_real R) / ?u"
    using u by (simp add: field_simps)
  have "H_spec R_cart L R C w = (of_real R / ?u) / ((?zc * ?u + of_real R) / ?u)"
    by (simp only: H_spec_def zl s)
  also have "\<dots> = of_real R / (?zc * ?u + of_real R)" using u by simp
  also have "?zc * ?u + of_real R
      = Complex (R_cart + R - w\<^sup>2 * (L * R * C)) (w * (L + R_cart * R * C))"
    by (simp add: complex_eq_iff Z_cart_spec_def algebra_simps power2_eq_square)
  finally show ?thesis .
qed

lemma cmod_H_spec:
  assumes "0 < R" "0 \<le> R_cart"
  shows "cmod (H_spec R_cart L R C w) = R / sqrt (denominator_sq R_cart L R C (w\<^sup>2))"
proof -
  have "(R_cart + R - w\<^sup>2 * (L * R * C))\<^sup>2 + (w * (L + R_cart * R * C))\<^sup>2
          = denominator_sq R_cart L R C (w\<^sup>2)"
    by (simp add: denominator_sq_def algebra_simps power2_eq_square)
  moreover have "cmod (Complex (R_cart + R - w\<^sup>2 * (L * R * C)) (w * (L + R_cart * R * C)))
          = sqrt ((R_cart + R - w\<^sup>2 * (L * R * C))\<^sup>2 + (w * (L + R_cart * R * C))\<^sup>2)"
    by (rule complex_norm)
  moreover have "cmod (of_real R) = R" using assms(1) by simp
  ultimately show ?thesis
    by (simp only: H_spec_reciprocal [OF assms] norm_divide)
qed

lemma denominator_sq_pos:
  assumes "0 < R" "0 \<le> R_cart"
  shows "0 < denominator_sq R_cart L R C (w\<^sup>2)"
proof (rule ccontr)
  assume "\<not> 0 < denominator_sq R_cart L R C (w\<^sup>2)"
  then have "sqrt (denominator_sq R_cart L R C (w\<^sup>2)) \<le> 0" by simp
  then have "R / sqrt (denominator_sq R_cart L R C (w\<^sup>2)) \<le> 0"
    using assms(1) by (simp add: divide_nonneg_nonpos)
  then have "cmod (H_spec R_cart L R C w) \<le> 0" by (simp add: cmod_H_spec [OF assms])
  then show False using H_spec_nonzero [OF assms, of L C w] by simp
qed

section \<open>The default cartridge\<close>

text \<open>
  The defaults of the interactive prompts, 500 mH, 600 ohms, 47 kilohms and 200 pF, give a
  magnitude of at most 1 dB at every frequency and the quality factor \<open>125 / 119\<close>.
\<close>

lemma quadratic_lower_bound:
  fixes a b c x :: real
  assumes "0 < a"
  shows "c - b\<^sup>2 / (4 * a) \<le> a * x\<^sup>2 + b * x + c"
proof -
  have "a * x\<^sup>2 + b * x + c - (c - b\<^sup>2 / (4 * a)) = a * (x + b / (2 * a))\<^sup>2"
    using assms by (simp add: field_simps power2_eq_square)
  moreover have "0 \<le> a * (x + b / (2 * a))\<^sup>2" using assms by simp
  ultimately show ?thesis by linarith
qed

lemma default_denominator_bound:
  "5 / 6 * (47000::real)\<^sup>2 \<le> denominator_sq 600 (500 / 10 ^ 3) (47 * 10 ^ 3) (200 / 10 ^ 12) x"
proof -
  let ?a = "((500 / 10 ^ 3) * (47 * 10 ^ 3) * (200 / 10 ^ 12) :: real)\<^sup>2"
  let ?b = "((500 / 10 ^ 3) + 600 * (47 * 10 ^ 3) * (200 / 10 ^ 12))\<^sup>2
             - 2 * (600 + 47 * 10 ^ 3) * ((500 / 10 ^ 3) * (47 * 10 ^ 3) * (200 / 10 ^ 12)) :: real"
  let ?c = "(600 + 47 * 10 ^ 3 :: real)\<^sup>2"
  have a: "0 < ?a" by simp
  have "5 / 6 * (47000::real)\<^sup>2 \<le> ?c - ?b\<^sup>2 / (4 * ?a)"
    by (simp add: power2_eq_square)
  also have "\<dots> \<le> ?a * x\<^sup>2 + ?b * x + ?c" using a by (rule quadratic_lower_bound)
  finally show ?thesis unfolding denominator_sq_def .
qed

lemma default_magnitude_bound:
  "20 * log 10 (cmod (H_spec 600 (500 / 10 ^ 3) (47 * 10 ^ 3) (200 / 10 ^ 12) w)) \<le> 1"
proof -
  let ?h = "H_spec 600 (500 / 10 ^ 3) (47 * 10 ^ 3) (200 / 10 ^ 12) w"
  let ?D = "denominator_sq 600 (500 / 10 ^ 3) (47 * 10 ^ 3) (200 / 10 ^ 12) (w\<^sup>2)"
  have R: "(0::real) < 47 * 10 ^ 3" "(0::real) \<le> 600" by simp_all
  have D: "0 < ?D" using R by (rule denominator_sq_pos)
  have c: "cmod ?h = (47 * 10 ^ 3) / sqrt ?D" using R by (rule cmod_H_spec)
  have cp: "0 < cmod ?h" using H_spec_nonzero [OF R, of "500 / 10 ^ 3" "200 / 10 ^ 12" w] by simp
  have "(cmod ?h)\<^sup>2 = ((47 * 10 ^ 3) / sqrt ?D)\<^sup>2" by (simp only: c)
  also have "\<dots> = (47 * 10 ^ 3)\<^sup>2 / ?D"
    using D by (simp add: power_divide)
  also have "\<dots> \<le> 6 / 5"
    using D default_denominator_bound [of "w\<^sup>2"] by (simp add: field_simps)
  finally have sq: "(cmod ?h)\<^sup>2 \<le> 6 / 5" .
  have "(cmod ?h) ^ 20 = ((cmod ?h)\<^sup>2) ^ 10" by (simp add: power_mult [symmetric])
  also have "\<dots> \<le> (6 / 5) ^ 10" using sq by (intro power_mono) simp_all
  also have "\<dots> \<le> (10::real)" by (simp add: power_divide)
  finally have p20: "(cmod ?h) ^ 20 \<le> 10" .
  have "20 * log 10 (cmod ?h) = log 10 ((cmod ?h) ^ 20)"
    using cp by (simp add: log_nat_power)
  also have "\<dots> \<le> log 10 10" using p20 cp by (simp del: log_eq_one)
  finally show ?thesis by simp
qed

lemma default_quality_factor:
  "sqrt ((500 / 10 ^ 3) / (200 / 10 ^ 12)) / (600 + 47 * 10 ^ 3) = (125 / 119 :: real)"
proof -
  have "(500 / 10 ^ 3) / (200 / 10 ^ 12) = (50000::real)\<^sup>2" by (simp add: power2_eq_square)
  then have "sqrt ((500 / 10 ^ 3) / (200 / 10 ^ 12)) = (50000::real)" by simp
  then show ?thesis by simp
qed

section \<open>Claims about the renderer\<close>

text \<open>
  Claim C6. For valid components the renderer calls the calculator exactly twice with the
  same four components, as its log of calls shows: first over 20 Hz to 20 kHz with 2000
  samples, then over 20 Hz to 50 kHz with 3000 samples, and both calls return. The peak
  magnitude and the peak frequency of the report are the magnitude and the frequency of the
  first call, the audible sweep, at the index \<open>p\<close> of the maximum of its magnitudes (the
  first such index).
\<close>

theorem renderer_calls_and_peak:
  assumes pos: "0 < L_cart" "0 < C_total" "0 < R_load" "0 \<le> R_cart"
  shows "\<exists>rep audible extended mags p.
           plot_cartridge_response L_cart R_cart R_load C_total =
             (Inr (Some rep),
              [(L_cart, R_cart, R_load, C_total, (20, 20000), 2000),
               (L_cart, R_cart, R_load, C_total, (20, 50000), 3000)])
           \<and> cartridge_frequency_response L_cart R_cart R_load C_total (20, 20000) 2000 = Inr audible
           \<and> cartridge_frequency_response L_cart R_cart R_load C_total (20, 50000) 3000 = Inr extended
           \<and> those (magnitude_dB audible) = Some mags
           \<and> length mags = 2000
           \<and> p < length mags
           \<and> (\<forall>j < length mags. mags ! j \<le> mags ! p)
           \<and> (\<forall>j < p. mags ! j < mags ! p)
           \<and> peak_magnitude rep = mags ! p
           \<and> magnitude_dB audible ! p = Some (peak_magnitude rep)
           \<and> actual_peak_freq rep = frequencies audible ! p"
proof -
  from plot_cartridge_response_valid [OF refl refl refl pos]
  obtain audible extended mags p where
    a: "cartridge_frequency_response L_cart R_cart R_load C_total (20, 20000) 2000 = Inr audible"
    and b: "cartridge_frequency_response L_cart R_cart R_load C_total (20, 50000) 3000 = Inr extended"
    and th: "those (magnitude_dB audible) = Some mags"
    and m: "mags = map (\<lambda>f. 20 * log 10 (cmod (H_spec R_cart (L_cart / 10 ^ 3) (R_load * 10 ^ 3)
                          (C_total / 10 ^ 12) (2 * pi * f)))) (sweep 20 20000 2000)"
    and p: "np_argmax mags = Inr p"
    and pl: "plot_cartridge_response L_cart R_cart R_load C_total =
               (Inr (Some \<lparr>ideal_lc_resonance = f_res_ideal audible,
                           actual_peak_freq = frequencies audible ! p,
                           peak_magnitude = mags ! p,
                           q_factor = Q_factor audible,
                           damping_line = map_option damping (Q_factor audible),
                           interpretation_tier = peak_tier (mags ! p)\<rparr>),
                [(L_cart, R_cart, R_load, C_total, (20, 20000), 2000),
                 (L_cart, R_cart, R_load, C_total, (20, 50000), 3000)])"
    by blast
  let ?rep = "\<lparr>ideal_lc_resonance = f_res_ideal audible,
                actual_peak_freq = frequencies audible ! p,
                peak_magnitude = mags ! p,
                q_factor = Q_factor audible,
                damping_line = map_option damping (Q_factor audible),
                interpretation_tier = peak_tier (mags ! p)\<rparr>"
  have len: "length mags = 2000" by (simp add: m length_sweep)
  from np_argmax_spec [OF p]
  have pl': "p < length mags" and mx: "\<forall>j < length mags. mags ! j \<le> mags ! p"
    and fst: "\<forall>j < p. mags ! j < mags ! p" by blast+
  have mp: "magnitude_dB audible ! p = Some (peak_magnitude ?rep)"
    using those_nth [OF th pl'] by simp
  have "peak_magnitude ?rep = mags ! p" "actual_peak_freq ?rep = frequencies audible ! p"
    by simp_all
  with pl a b th len pl' mx fst mp show ?thesis by blast
qed

theorem renderer_calls_and_peak_witness:
  "\<exists>rep audible mags p.
     plot_cartridge_response 500 600 47 200 =
       (Inr (Some rep), [(500, 600, 47, 200, (20, 20000), 2000), (500, 600, 47, 200, (20, 50000), 3000)])
     \<and> cartridge_frequency_response 500 600 47 200 (20, 20000) 2000 = Inr audible
     \<and> those (magnitude_dB audible) = Some mags
     \<and> p < length mags \<and> (\<forall>j < length mags. mags ! j \<le> mags ! p)
     \<and> peak_magnitude rep = mags ! p
     \<and> actual_peak_freq rep = frequencies audible ! p"
proof -
  have h: "(0::real) < 500" "(0::real) < 200" "(0::real) < 47" "(0::real) \<le> 600"
    by simp_all
  from renderer_calls_and_peak [OF h]
  show ?thesis by blast
qed

text \<open>
  Claim C5. For valid components the renderer prints a report whose interpretation tier is
  a function of its peak magnitude alone, and that peak magnitude is the maximum of the
  magnitudes of the audible sweep, the calculator's \<open>20 log10 |H|\<close> at the peak frequency.
  Above 3 dB the tier is the significant treble boost, otherwise above 1 dB the moderate
  treble lift, otherwise the well-damped response. The comparisons are strict: exactly 3 dB
  is a moderate lift and exactly 1 dB is well damped.
\<close>

theorem interpretation_tier_thresholds:
  assumes L: "L = L_cart / 10 ^ 3" and R: "R = R_load * 10 ^ 3" and C: "C = C_total / 10 ^ 12"
    and pos: "0 < L_cart" "0 < C_total" "0 < R_load" "0 \<le> R_cart"
  shows "\<exists>rep calls audible mags p f.
           plot_cartridge_response L_cart R_cart R_load C_total = (Inr (Some rep), calls)
           \<and> cartridge_frequency_response L_cart R_cart R_load C_total (20, 20000) 2000 = Inr audible
           \<and> those (magnitude_dB audible) = Some mags
           \<and> p < length mags
           \<and> (\<forall>j < length mags. mags ! j \<le> mags ! p)
           \<and> peak_magnitude rep = mags ! p
           \<and> frequencies audible ! p = Some f
           \<and> peak_magnitude rep = 20 * log 10 (cmod (H_spec R_cart L R C (2 * pi * f)))
           \<and> interpretation_tier rep = peak_tier (peak_magnitude rep)
           \<and> (interpretation_tier rep = Significant_treble_boost \<longleftrightarrow> 3 < peak_magnitude rep)
           \<and> (interpretation_tier rep = Moderate_treble_lift \<longleftrightarrow>
                 1 < peak_magnitude rep \<and> peak_magnitude rep \<le> 3)
           \<and> (interpretation_tier rep = Well_damped \<longleftrightarrow> peak_magnitude rep \<le> 1)
           \<and> (peak_tier m = Significant_treble_boost \<longleftrightarrow> 3 < m)
           \<and> (peak_tier m = Moderate_treble_lift \<longleftrightarrow> 1 < m \<and> m \<le> 3)
           \<and> (peak_tier m = Well_damped \<longleftrightarrow> m \<le> 1)
           \<and> peak_tier 3 = Moderate_treble_lift
           \<and> peak_tier 1 = Well_damped"
proof -
  let ?g = "\<lambda>f. 20 * log 10 (cmod (H_spec R_cart L R C (2 * pi * f)))"
  from plot_cartridge_response_valid [OF L R C pos]
  obtain audible mags p where
    a: "cartridge_frequency_response L_cart R_cart R_load C_total (20, 20000) 2000 = Inr audible"
    and th: "those (magnitude_dB audible) = Some mags"
    and m: "mags = map ?g (sweep 20 20000 2000)"
    and fq: "frequencies audible = map Some (sweep 20 20000 2000)"
    and p: "np_argmax mags = Inr p"
    and pl: "plot_cartridge_response L_cart R_cart R_load C_total =
               (Inr (Some \<lparr>ideal_lc_resonance = f_res_ideal audible,
                           actual_peak_freq = frequencies audible ! p,
                           peak_magnitude = mags ! p,
                           q_factor = Q_factor audible,
                           damping_line = map_option damping (Q_factor audible),
                           interpretation_tier = peak_tier (mags ! p)\<rparr>),
                [(L_cart, R_cart, R_load, C_total, (20, 20000), 2000),
                 (L_cart, R_cart, R_load, C_total, (20, 50000), 3000)])"
    by blast
  let ?rep = "\<lparr>ideal_lc_resonance = f_res_ideal audible,
                actual_peak_freq = frequencies audible ! p,
                peak_magnitude = mags ! p,
                q_factor = Q_factor audible,
                damping_line = map_option damping (Q_factor audible),
                interpretation_tier = peak_tier (mags ! p)\<rparr>"
  from np_argmax_spec [OF p]
  have pl': "p < length mags" and mx: "\<forall>j < length mags. mags ! j \<le> mags ! p" by blast+
  have ps: "p < length (sweep 20 20000 2000)" using pl' by (simp add: m)
  have f: "frequencies audible ! p = Some (sweep 20 20000 2000 ! p)" using ps by (simp add: fq)
  have v: "peak_magnitude ?rep = ?g (sweep 20 20000 2000 ! p)" using ps by (simp add: m)
  have e: "peak_magnitude ?rep = mags ! p"
    "interpretation_tier ?rep = peak_tier (peak_magnitude ?rep)" by simp_all
  have t1: "interpretation_tier ?rep = Significant_treble_boost \<longleftrightarrow> 3 < peak_magnitude ?rep"
    and t2: "interpretation_tier ?rep = Moderate_treble_lift \<longleftrightarrow>
               1 < peak_magnitude ?rep \<and> peak_magnitude ?rep \<le> 3"
    and t3: "interpretation_tier ?rep = Well_damped \<longleftrightarrow> peak_magnitude ?rep \<le> 1"
    by (simp_all add: peak_tier_def)
  have g1: "peak_tier m = Significant_treble_boost \<longleftrightarrow> 3 < m"
    and g2: "peak_tier m = Moderate_treble_lift \<longleftrightarrow> 1 < m \<and> m \<le> 3"
    and g3: "peak_tier m = Well_damped \<longleftrightarrow> m \<le> 1"
    and g4: "peak_tier 3 = Moderate_treble_lift" and g5: "peak_tier 1 = Well_damped"
    by (simp_all add: peak_tier_def)
  from pl a th pl' mx e(1) f v e(2) t1 t2 t3 g1 g2 g3 g4 g5 show ?thesis by blast
qed

theorem interpretation_tier_thresholds_witness:
  "\<exists>rep calls. plot_cartridge_response 500 600 47 200 = (Inr (Some rep), calls)
     \<and> peak_magnitude rep \<le> 1
     \<and> interpretation_tier rep = Well_damped
     \<and> peak_tier 4 = Significant_treble_boost
     \<and> peak_tier 2 = Moderate_treble_lift
     \<and> peak_tier 3 = Moderate_treble_lift
     \<and> peak_tier 1 = Well_damped"
proof -
  have h: "(0::real) < 500" "(0::real) < 200" "(0::real) < 47" "(0::real) \<le> 600"
    by simp_all
  from interpretation_tier_thresholds [OF refl refl refl h, of 4]
  obtain rep calls f where
    pl: "plot_cartridge_response 500 600 47 200 = (Inr (Some rep), calls)"
    and v: "peak_magnitude rep =
              20 * log 10 (cmod (H_spec 600 (500 / 10 ^ 3) (47 * 10 ^ 3) (200 / 10 ^ 12) (2 * pi * f)))"
    and w: "interpretation_tier rep = Well_damped \<longleftrightarrow> peak_magnitude rep \<le> 1"
    and t4: "peak_tier 4 = Significant_treble_boost \<longleftrightarrow> (3::real) < 4"
    and t3: "peak_tier 3 = Moderate_treble_lift" and t1: "peak_tier 1 = Well_damped"
    by blast
  have le: "peak_magnitude rep \<le> 1" unfolding v by (rule default_magnitude_bound)
  from interpretation_tier_thresholds [OF refl refl refl h, of 2]
  have t2: "peak_tier 2 = Moderate_treble_lift" by auto
  from pl le w t4 t2 t3 t1 show ?thesis by auto
qed

text \<open>
  Claim C9. For valid components the renderer prints a report whose quality factor is the
  one the calculator returns for the audible sweep, \<open>sqrt (L / C) / (R_cart + R_load)\<close>, and
  whose damping line is a function of it alone: \<open>Under-damped (resonant peak visible)\<close>
  exactly when \<open>Q > 1\<close> and \<open>Critically/Over-damped (minimal peak)\<close> otherwise, also at
  \<open>Q = 1\<close>.
\<close>

theorem damping_line_threshold:
  assumes L: "L = L_cart / 10 ^ 3" and R: "R = R_load * 10 ^ 3" and C: "C = C_total / 10 ^ 12"
    and pos: "0 < L_cart" "0 < C_total" "0 < R_load" "0 \<le> R_cart"
  shows "\<exists>rep calls audible q.
           plot_cartridge_response L_cart R_cart R_load C_total = (Inr (Some rep), calls)
           \<and> cartridge_frequency_response L_cart R_cart R_load C_total (20, 20000) 2000 = Inr audible
           \<and> Q_factor audible = Some q
           \<and> q = sqrt (L / C) / (R_cart + R)
           \<and> q_factor rep = Some q
           \<and> damping_line rep = Some (damping q)
           \<and> (damping_line rep = Some ''Under-damped (resonant peak visible)'' \<longleftrightarrow> 1 < q)
           \<and> (damping_line rep = Some ''Critically/Over-damped (minimal peak)'' \<longleftrightarrow> q \<le> 1)
           \<and> (damping x = ''Under-damped (resonant peak visible)'' \<longleftrightarrow> 1 < x)
           \<and> (damping x = ''Critically/Over-damped (minimal peak)'' \<longleftrightarrow> x \<le> 1)
           \<and> damping 1 = ''Critically/Over-damped (minimal peak)''"
proof -
  let ?q = "sqrt (L / C) / (R_cart + R)"
  from plot_cartridge_response_valid [OF L R C pos]
  obtain audible mags p where
    a: "cartridge_frequency_response L_cart R_cart R_load C_total (20, 20000) 2000 = Inr audible"
    and q: "Q_factor audible = Some ?q"
    and pl: "plot_cartridge_response L_cart R_cart R_load C_total =
               (Inr (Some \<lparr>ideal_lc_resonance = f_res_ideal audible,
                           actual_peak_freq = frequencies audible ! p,
                           peak_magnitude = mags ! p,
                           q_factor = Q_factor audible,
                           damping_line = map_option damping (Q_factor audible),
                           interpretation_tier = peak_tier (mags ! p)\<rparr>),
                [(L_cart, R_cart, R_load, C_total, (20, 20000), 2000),
                 (L_cart, R_cart, R_load, C_total, (20, 50000), 3000)])"
    by blast
  let ?rep = "\<lparr>ideal_lc_resonance = f_res_ideal audible,
                actual_peak_freq = frequencies audible ! p,
                peak_magnitude = mags ! p,
                q_factor = Q_factor audible,
                damping_line = map_option damping (Q_factor audible),
                interpretation_tier = peak_tier (mags ! p)\<rparr>"
  have e: "q_factor ?rep = Some ?q" "damping_line ?rep = Some (damping ?q)"
    by (simp_all add: q)
  have d1: "damping_line ?rep = Some ''Under-damped (resonant peak visible)'' \<longleftrightarrow> 1 < ?q"
    and d2: "damping_line ?rep = Some ''Critically/Over-damped (minimal peak)'' \<longleftrightarrow> ?q \<le> 1"
    by (simp_all add: q damping_def)
  have g1: "damping x = ''Under-damped (resonant peak visible)'' \<longleftrightarrow> 1 < x"
    and g2: "damping x = ''Critically/Over-damped (minimal peak)'' \<longleftrightarrow> x \<le> 1"
    and g3: "damping 1 = ''Critically/Over-damped (minimal peak)''"
    by (simp_all add: damping_def)
  from pl a q e d1 d2 g1 g2 g3 show ?thesis by blast
qed

theorem damping_line_threshold_witness:
  "\<exists>rep calls. plot_cartridge_response 500 600 47 200 = (Inr (Some rep), calls)
     \<and> q_factor rep = Some (125 / 119)
     \<and> damping_line rep = Some ''Under-damped (resonant peak visible)''
     \<and> damping (1 / 2) = ''Critically/Over-damped (minimal peak)''
     \<and> damping 1 = ''Critically/Over-damped (minimal peak)''"
proof -
  have h: "(0::real) < 500" "(0::real) < 200" "(0::real) < 47" "(0::real) \<le> 600"
    by simp_all
  from damping_line_threshold [OF refl refl refl h, of "1 / 2"]
  obtain rep calls q where
    pl: "plot_cartridge_response 500 600 47 200 = (Inr (Some rep), calls)"
    and q: "q = sqrt ((500 / 10 ^ 3) / (200 / 10 ^ 12)) / (600 + 47 * 10 ^ 3)"
    and qf: "q_factor rep = Some q"
    and u: "damping_line rep = Some ''Under-damped (resonant peak visible)'' \<longleftrightarrow> 1 < q"
    and c: "damping (1 / 2) = ''Critically/Over-damped (minimal peak)'' \<longleftrightarrow> (1 / 2 :: real) \<le> 1"
    and c1: "damping 1 = ''Critically/Over-damped (minimal peak)''"
    by blast
  have qv: "q = 125 / 119" unfolding q by (rule default_quality_factor)
  from pl qf u c c1 show ?thesis unfolding qv by simp
qed

section \<open>The response in exact arithmetic\<close>

text \<open>
  The squared modulus of \<open>H\<close> is \<open>R_load\<^sup>2\<close> over a quadratic polynomial in \<open>\<omega>\<^sup>2\<close> with a
  leading coefficient that is not negative. In exact arithmetic the magnitude is therefore
  quasi-concave in the frequency, and along a sweep, which is monotone in the index, the
  exact magnitudes do not increase after the index of their maximum. The samples that the
  program stores are these values rounded to \<^verbatim>\<open>float64\<close>; where neighbouring exact
  magnitudes differ by less than the rounding error, their order is not decided by the
  lemmas below.
\<close>

lemma quadratic_quasi_convex:
  fixes a b c :: real
  assumes "0 \<le> a" "x \<le> y" "y \<le> z"
  shows "a * y\<^sup>2 + b * y + c \<le> a * x\<^sup>2 + b * x + c
         \<or> a * y\<^sup>2 + b * y + c \<le> a * z\<^sup>2 + b * z + c"
proof (cases "a * (y + x) + b \<le> 0")
  case True
  have "a * y\<^sup>2 + b * y + c - (a * x\<^sup>2 + b * x + c) = (y - x) * (a * (y + x) + b)"
    by (simp add: algebra_simps power2_eq_square)
  moreover have "(y - x) * (a * (y + x) + b) \<le> 0"
    using True assms(2) by (intro mult_nonneg_nonpos) simp_all
  ultimately show ?thesis by simp
next
  case False
  have "0 \<le> a * (z - x)" using assms by (intro mult_nonneg_nonneg) simp_all
  then have "a * (y + x) + b \<le> a * (z + y) + b" by (simp add: algebra_simps)
  with False have p: "0 \<le> a * (z + y) + b" by simp
  have "a * z\<^sup>2 + b * z + c - (a * y\<^sup>2 + b * y + c) = (z - y) * (a * (z + y) + b)"
    by (simp add: algebra_simps power2_eq_square)
  moreover have "0 \<le> (z - y) * (a * (z + y) + b)"
    using p assms(3) by (intro mult_nonneg_nonneg) simp_all
  ultimately show ?thesis by simp
qed

lemma magnitude_antimono_denominator:
  assumes "0 < R" "0 < d2" "d2 \<le> d1"
  shows "20 * log 10 (R / sqrt d1) \<le> 20 * log 10 (R / sqrt d2)"
proof -
  have s: "0 < sqrt d2" "sqrt d2 \<le> sqrt d1" using assms(2,3) by simp_all
  then have s1: "0 < sqrt d1" by linarith
  have "R / sqrt d1 \<le> R / sqrt d2"
    using assms(1) s by (intro divide_left_mono) simp_all
  moreover have "0 < R / sqrt d1" using assms(1) s1 by simp
  ultimately have "log 10 (R / sqrt d1) \<le> log 10 (R / sqrt d2)"
    by (simp add: log_le_cancel_iff)
  then show ?thesis by simp
qed

lemma magnitude_quasi_concave:
  assumes R: "0 < R" "0 \<le> R_cart" and f: "0 < f1" "f1 \<le> f2" "f2 \<le> f3"
  shows "20 * log 10 (cmod (H_spec R_cart L R C (2 * pi * f1)))
           \<le> 20 * log 10 (cmod (H_spec R_cart L R C (2 * pi * f2)))
         \<or> 20 * log 10 (cmod (H_spec R_cart L R C (2 * pi * f3)))
           \<le> 20 * log 10 (cmod (H_spec R_cart L R C (2 * pi * f2)))"
proof -
  let ?x = "\<lambda>f. (2 * pi * f)\<^sup>2"
  let ?D = "denominator_sq R_cart L R C"
  have w: "0 \<le> 2 * pi * f1" "2 * pi * f1 \<le> 2 * pi * f2" "2 * pi * f2 \<le> 2 * pi * f3"
    using f by simp_all
  then have w2: "0 \<le> 2 * pi * f2" by linarith
  have x12: "?x f1 \<le> ?x f2" using w(1,2) by (rule power_mono [rotated])
  have x23: "?x f2 \<le> ?x f3" using w2 w(3) by (rule power_mono [rotated])
  have "0 \<le> (L * R * C)\<^sup>2" by simp
  from quadratic_quasi_convex [OF this x12 x23]
  have "?D (?x f2) \<le> ?D (?x f1) \<or> ?D (?x f2) \<le> ?D (?x f3)"
    unfolding denominator_sq_def .
  moreover have p: "0 < ?D (?x f2)" using R by (rule denominator_sq_pos)
  ultimately show ?thesis
    unfolding cmod_H_spec [OF R]
    using magnitude_antimono_denominator [OF R(1) p] by blast
qed

lemma sweep_monotone:
  assumes "i \<le> j" "j < n" and lo: "0 < lo" and hi: "0 < hi"
  shows "(lo \<le> hi \<longrightarrow> sweep lo hi n ! i \<le> sweep lo hi n ! j)
         \<and> (hi \<le> lo \<longrightarrow> sweep lo hi n ! j \<le> sweep lo hi n ! i)"
proof (cases "n \<le> 1")
  case True
  with assms have "i = j" by simp
  then show ?thesis by simp
next
  case False
  let ?a = "log 10 lo" and ?b = "log 10 hi"
  let ?e = "\<lambda>k. ?a + real k * ((?b - ?a) / real (n - 1))"
  have i: "i < n" using assms by simp
  have d: "0 < real (n - 1)" using False by simp
  have si: "sweep lo hi n ! i = 10 powr ?e i"
    using i False by (simp add: sweep_def length_linspace linspace_nth)
  have sj: "sweep lo hi n ! j = 10 powr ?e j"
    using assms(2) False by (simp add: sweep_def length_linspace linspace_nth)
  have up: "?e i \<le> ?e j" if "lo \<le> hi"
  proof -
    have "?a \<le> ?b" using lo hi that by simp
    then have "0 \<le> (?b - ?a) / real (n - 1)" using d by simp
    then have "real i * ((?b - ?a) / real (n - 1)) \<le> real j * ((?b - ?a) / real (n - 1))"
      using assms(1) by (intro mult_right_mono) simp_all
    then show ?thesis by simp
  qed
  have down: "?e j \<le> ?e i" if "hi \<le> lo"
  proof -
    have "?b \<le> ?a" using lo hi that by simp
    then have "(?b - ?a) / real (n - 1) \<le> 0" using d by (simp add: divide_nonpos_pos)
    then have "real j * ((?b - ?a) / real (n - 1)) \<le> real i * ((?b - ?a) / real (n - 1))"
      using assms(1) by (intro mult_right_mono_neg) simp_all
    then show ?thesis by simp
  qed
  show ?thesis unfolding si sj using up down by simp
qed

lemma exact_rolloff_above_peak:
  assumes R: "0 < R" "0 \<le> R_cart" and rng: "0 < lo" "0 < hi"
    and mags: "mags = map (\<lambda>f. 20 * log 10 (cmod (H_spec R_cart L R C (2 * pi * f))))
                          (sweep lo hi n)"
    and p: "np_argmax mags = Inr p" and ij: "p \<le> i" "i < j" "j < n"
  shows "mags ! j \<le> mags ! i"
proof -
  let ?g = "\<lambda>f. 20 * log 10 (cmod (H_spec R_cart L R C (2 * pi * f)))"
  let ?s = "sweep lo hi n"
  have len: "length mags = n" by (simp add: mags length_sweep)
  from np_argmax_spec [OF p]
  have pmax: "\<forall>k < length mags. mags ! k \<le> mags ! p" by blast
  have jn: "j < n" and i_n: "i < n" and pn: "p < n" using ij by simp_all
  have mi: "mags ! i = ?g (?s ! i)" and mj: "mags ! j = ?g (?s ! j)"
    and mp: "mags ! p = ?g (?s ! p)"
    using jn i_n pn by (simp_all add: mags length_sweep)
  have "mags ! j \<le> mags ! p" using pmax jn len by blast
  then have jp: "?g (?s ! j) \<le> ?g (?s ! p)" unfolding mj mp .
  have fp: "0 < ?s ! p" and fj: "0 < ?s ! j" using pn jn by (simp_all add: sweep_pos)
  have ij': "i \<le> j" using ij(2) by simp
  have "?g (?s ! p) \<le> ?g (?s ! i) \<or> ?g (?s ! j) \<le> ?g (?s ! i)"
  proof (cases "lo \<le> hi")
    case True
    have "?s ! p \<le> ?s ! i" using sweep_monotone [OF ij(1) i_n rng] True by simp
    moreover have "?s ! i \<le> ?s ! j" using sweep_monotone [OF ij' jn rng] True by simp
    ultimately show ?thesis
      using magnitude_quasi_concave [OF R fp, of "?s ! i" "?s ! j" L C] by simp
  next
    case False
    then have h: "hi \<le> lo" by simp
    have "?s ! i \<le> ?s ! p" using sweep_monotone [OF ij(1) i_n rng] h by simp
    moreover have "?s ! j \<le> ?s ! i" using sweep_monotone [OF ij' jn rng] h by simp
    ultimately show ?thesis
      using magnitude_quasi_concave [OF R fj, of "?s ! i" "?s ! p" L C] by blast
  qed
  with jp show ?thesis unfolding mi mj by linarith
qed

end
